theory Spec2Isabelle
  imports Complex_Main
begin

section \<open>Audio buffers, keyword arguments, errors\<close>

text \<open>
  The module \<open>kur/utils/audiotools.py\<close> works on the dictionary that \<open>load_audio\<close>
  returns. The decoders (file type detection, WAV, MP3 and FLAC readers) and the MFCC
  routine are libraries outside the module, so the embedding starts from a loaded buffer:
  lines 176 and 177 of \<open>get_audio_features\<close>, which load a buffer when the argument is
  a path, are not part of it. Python integers are \<open>int\<close>. The samples and every float64 value are exact reals: binary
  rounding is not modelled, so equalities between floats are equalities of the exact
  quantities the floats approximate.
\<close>

record audio =
  signal :: "real list"
  sample_rate :: int
  sample_width :: int
  channels :: int

text \<open>
  \<open>**kwargs\<close>: a dictionary from option names to numbers; \<open>kwargs.get(k)\<close> is the map
  applied to \<open>k\<close>, with \<open>None\<close> for a missing key.
\<close>

type_synonym kwargs = "string \<rightharpoonup> real"

text \<open>
  The exceptions the feature computation can raise. \<open>ValueError\<close> carries its message.
\<close>

datatype error = ZeroDivisionError | ValueError string

text \<open>
  An entry of a float64 array after a division: \<open>Some x\<close> is the finite value \<open>x\<close>,
  \<open>None\<close> is the non-finite entry (\<open>inf\<close> or \<open>nan\<close>) numpy stores, with a warning and
  without raising, where the divisor is zero.
\<close>

type_synonym npfloat = "real option"

text \<open>
  What \<open>get_audio_features\<close> returns: the raw signal, the result of the external call
  \<open>python_speech_features.mfcc(signal, samplerate, numcep, nfilt, lowfreq, highfreq)\<close>
  (kept as the call's arguments), or the spectrogram, a (time, frequency) matrix as a
  list of rows.
\<close>

datatype features =
    Raw "real list"
  | Mfcc "real list" int real real real "real option"
  | Spec "npfloat list list"

section \<open>Python and numpy primitives\<close>

text \<open>\<open>int(x)\<close> on a float truncates toward zero.\<close>

definition py_int :: "real \<Rightarrow> int" where
  "py_int x = (if x < 0 then \<lceil>x\<rceil> else \<lfloor>x\<rfloor>)"

text \<open>The truth value of an optional number: \<open>None\<close> and zero are false.\<close>

definition truthy :: "real option \<Rightarrow> bool" where
  "truthy v = (case v of None \<Rightarrow> False | Some x \<Rightarrow> x \<noteq> 0)"

text \<open>\<open>v or alt\<close> for an optional number \<open>v\<close> and a number \<open>alt\<close>.\<close>

definition py_or :: "real option \<Rightarrow> real \<Rightarrow> real" where
  "py_or v alt = (case v of None \<Rightarrow> alt | Some x \<Rightarrow> if x \<noteq> 0 then x else alt)"

text \<open>
  A slice index of a sequence of length \<open>n\<close>: a negative index counts from the end, and
  the result is clipped to \<open>[0, n]\<close>.
\<close>

definition slice_index :: "nat \<Rightarrow> int \<Rightarrow> nat" where
  "slice_index n i = (if i < 0 then nat (int n + i) else min (nat i) n)"

text \<open>\<open>xs[a:b]\<close>.\<close>

definition py_slice :: "'a list \<Rightarrow> int \<Rightarrow> int \<Rightarrow> 'a list" where
  "py_slice xs a b = drop (slice_index (length xs) a) (take (slice_index (length xs) b) xs)"

text \<open>
  \<open>numpy.lib.stride_tricks.as_strided(clean, shape=(frame_size, num_frames),
  strides=(s, s * hop_size))\<close> with \<open>s\<close> the size of one sample: entry \<open>(k, i)\<close> of the view
  is the sample at offset \<open>k + i * hop_size\<close>. The matrix is the list of its
  \<open>frame_size\<close> rows; column \<open>i\<close> is frame \<open>i\<close>.
\<close>

definition as_strided :: "real list \<Rightarrow> nat \<Rightarrow> nat \<Rightarrow> nat \<Rightarrow> real list list" where
  "as_strided x nrows ncols step =
     map (\<lambda>k. map (\<lambda>i. x ! (k + i * step)) [0..<ncols]) [0..<nrows]"

text \<open>\<open>frames[:, i]\<close>: column \<open>i\<close> of a matrix, frame \<open>i\<close> of the frame matrix.\<close>

definition frame :: "real list list \<Rightarrow> nat \<Rightarrow> real list" where
  "frame frames i = map (\<lambda>row. row ! i) frames"

text \<open>
  \<open>numpy.hanning(M)\<close>: empty for \<open>M < 1\<close>, \<open>[1]\<close> for \<open>M = 1\<close>, and otherwise
  \<open>w[k] = 0.5 - 0.5 cos(2 pi k / (M - 1))\<close>.
\<close>

definition hanning :: "nat \<Rightarrow> real list" where
  "hanning M =
     (if M < 1 then []
      else if M = 1 then [1]
      else map (\<lambda>k. 1 / 2 - 1 / 2 * cos (2 * pi * real k / real (M - 1))) [0..<M])"

text \<open>
  \<open>frames * numpy.expand_dims(filter_window, -1)\<close>: row \<open>k\<close> of the frame matrix times
  \<open>filter_window[k]\<close>.
\<close>

definition mul_window :: "real list list \<Rightarrow> real list \<Rightarrow> real list list" where
  "mul_window frames w = map2 (\<lambda>row wk. map (\<lambda>x. x * wk) row) frames w"

text \<open>
  \<open>numpy.fft.rfft(x, axis=0)\<close> on a matrix of \<open>n\<close> rows and \<open>m\<close> columns, \<open>n \<ge> 1\<close>: for
  every column the coefficients \<open>0 .. n div 2\<close> of its discrete Fourier transform.
\<close>

definition rfft :: "nat \<Rightarrow> nat \<Rightarrow> real list list \<Rightarrow> complex list list" where
  "rfft n m x =
     map (\<lambda>j. map (\<lambda>i. \<Sum>k<n. complex_of_real (x ! k ! i) *
                               cis (- (2 * pi * real j * real k / real n)))
                [0..<m])
       [0..<n div 2 + 1]"

text \<open>\<open>numpy.absolute(fft)**2\<close>, entry by entry.\<close>

definition absolute_sq :: "complex list list \<Rightarrow> npfloat list list" where
  "absolute_sq f = map (map (\<lambda>z. Some ((cmod z)\<^sup>2))) f"

text \<open>Float division of an array entry by a scalar.\<close>

definition np_divide :: "npfloat \<Rightarrow> real \<Rightarrow> npfloat" where
  "np_divide v d = (case v of None \<Rightarrow> None | Some x \<Rightarrow> if d = 0 then None else Some (x / d))"

text \<open>
  \<open>a[1:-1] /= d\<close>: the rows \<open>1 .. len(a) - 2\<close> are divided in place.
\<close>

definition divide_inner :: "npfloat list list \<Rightarrow> real \<Rightarrow> npfloat list list" where
  "divide_inner a d =
     map (\<lambda>j. if 1 \<le> j \<and> j + 1 < length a then map (\<lambda>v. np_divide v d) (a ! j) else a ! j)
       [0..<length a]"

text \<open>
  \<open>a[[0, -1]] /= d\<close>: the rows \<open>0\<close> and \<open>len(a) - 1\<close> are read, divided, and written
  back, in this order; where both indices name the same row it is divided once. The
  array has at least one row wherever the program reaches this statement.
\<close>

definition divide_edges :: "npfloat list list \<Rightarrow> real \<Rightarrow> npfloat list list" where
  "divide_edges a d =
     (let v0 = map (\<lambda>v. np_divide v d) (a ! 0);
          v1 = map (\<lambda>v. np_divide v d) (a ! (length a - 1))
      in (a[0 := v0])[length a - 1 := v1])"

text \<open>
  \<open>numpy.log(spec + 1e-14)\<close>, entry by entry; the logarithm of a non-positive number is
  not finite.
\<close>

definition np_log :: "npfloat \<Rightarrow> npfloat" where
  "np_log v =
     (case v of None \<Rightarrow> None
      | Some x \<Rightarrow> if 0 < x + 1 / 10 ^ 14 then Some (ln (x + 1 / 10 ^ 14)) else None)"

text \<open>\<open>a.T\<close> for a matrix of shape \<open>(len(a), m)\<close>: the result has \<open>m\<close> rows.\<close>

definition np_transpose :: "nat \<Rightarrow> 'a list list \<Rightarrow> 'a list list" where
  "np_transpose m a = map (\<lambda>i. map (\<lambda>row. row ! i) a) [0..<m]"

section \<open>The signal normalizer\<close>

text \<open>\<open>audio['signal'] / 2**(audio['sample_width'] - 1)\<close>.\<close>

definition scale_signal :: "audio \<Rightarrow> real list" where
  "scale_signal a = map (\<lambda>x. x / (2 powi (sample_width a - 1))) (signal a)"

section \<open>The spectrogram\<close>

definition window_size :: real where
  "window_size = 0.020"

definition step_size :: real where
  "step_size = 0.010"

text \<open>\<open>int(step_size * audio['sample_rate'])\<close> and \<open>int(window_size * audio['sample_rate'])\<close>.\<close>

definition hop_size :: "audio \<Rightarrow> int" where
  "hop_size a = py_int (step_size * real_of_int (sample_rate a))"

definition frame_size :: "audio \<Rightarrow> int" where
  "frame_size a = py_int (window_size * real_of_int (sample_rate a))"

text \<open>
  Lines 199 to 219: the signal is scaled, the samples that do not fit the step are cut
  off, and the frame matrix is a strided view of the rest. The modulo raises
  \<open>ZeroDivisionError\<close> for a zero hop size, and numpy refuses a view with a negative
  dimension. A negative hop size comes with a negative frame size (lemma
  \<open>sizes_neg\<close>), so the view is only built with a positive stride. The result is
  \<open>(frame_size, num_frames, frames)\<close>.
\<close>

definition remove :: "audio \<Rightarrow> int" where
  "remove a = (int (length (scale_signal a)) - frame_size a) mod hop_size a"

definition clean :: "audio \<Rightarrow> real list" where
  "clean a =
     (if remove a \<noteq> 0 then py_slice (scale_signal a) 0 (- remove a)
      else scale_signal a)"

definition num_frames :: "audio \<Rightarrow> int" where
  "num_frames a = (int (length (clean a)) - frame_size a) div hop_size a + 1"

definition framer :: "audio \<Rightarrow> error + (nat \<times> nat \<times> real list list)" where
  "framer a =
     (if hop_size a = 0 then Inl ZeroDivisionError
      else if frame_size a < 0 \<or> num_frames a < 0
        then Inl (ValueError ''negative dimensions are not allowed'')
      else Inr (nat (frame_size a), nat (num_frames a),
                as_strided (clean a) (nat (frame_size a)) (nat (num_frames a))
                  (nat (hop_size a))))"

text \<open>Lines 221 to 226: \<open>norm\<close>, the squared magnitude of the windowed frames' transform.\<close>

definition norm_of :: "nat \<Rightarrow> nat \<Rightarrow> real list list \<Rightarrow> npfloat list list" where
  "norm_of fsize nframes frames =
     absolute_sq (rfft fsize nframes (mul_window frames (hanning fsize)))"

text \<open>Line 228: \<open>scale = numpy.sum(filter_window**2) * audio['sample_rate']\<close>.\<close>

definition scale :: "nat \<Rightarrow> int \<Rightarrow> real" where
  "scale fsize rate = sum_list (map (\<lambda>w. w\<^sup>2) (hanning fsize)) * real_of_int rate"

text \<open>Lines 229 to 233: the two in-place divisions of \<open>scaled\<close>.\<close>

definition scaled :: "nat \<Rightarrow> nat \<Rightarrow> real list list \<Rightarrow> int \<Rightarrow> npfloat list list" where
  "scaled fsize nframes frames rate =
     divide_edges
       (divide_inner (norm_of fsize nframes frames) (scale fsize rate / 2))
       (scale fsize rate)"

text \<open>Lines 236 to 253: the frequency cutoffs.\<close>

definition delta_freq :: real where
  "delta_freq = 1 / window_size"

text \<open>
  The \<open>lambda\<close> of line 246, with the number of bins it reads from its environment as
  its first argument: \<open>if f\<close> is false for \<open>None\<close> and for zero.
\<close>

definition get_bin :: "int \<Rightarrow> real option \<Rightarrow> int \<Rightarrow> int" where
  "get_bin num_bins f alt =
     (case f of
        None \<Rightarrow> alt
      | Some v \<Rightarrow> if v \<noteq> 0 then min (max (py_int (v / delta_freq + 0.5)) 0) num_bins else alt)"

definition crop :: "npfloat list list \<Rightarrow> real option \<Rightarrow> real option \<Rightarrow> npfloat list list" where
  "crop spec low_freq high_freq =
     (if truthy low_freq \<or> truthy high_freq
      then (let num_bins = int (length spec)
            in py_slice spec (get_bin num_bins low_freq 0) (get_bin num_bins high_freq num_bins))
      else spec)"

text \<open>The value of \<open>spec\<close> before the logarithm (line 254).\<close>

definition pre_log ::
  "nat \<Rightarrow> nat \<Rightarrow> real list list \<Rightarrow> int \<Rightarrow> real option \<Rightarrow> real option \<Rightarrow> npfloat list list" where
  "pre_log fsize nframes frames rate low_freq high_freq =
     crop (scaled fsize nframes frames rate) low_freq high_freq"

text \<open>
  Lines 221 to 258 on a frame matrix of shape \<open>(fsize, nframes)\<close>. \<open>numpy.fft.rfft\<close>
  raises \<open>ValueError\<close> for an axis without data points.
\<close>

definition spectrogram ::
  "nat \<Rightarrow> nat \<Rightarrow> real list list \<Rightarrow> int \<Rightarrow> kwargs \<Rightarrow> error + npfloat list list" where
  "spectrogram fsize nframes frames rate kw =
     (if fsize < 1 then Inl (ValueError ''Invalid number of FFT data points (0) specified.'')
      else Inr (np_transpose nframes
                  (map (map np_log)
                     (pre_log fsize nframes frames rate (kw ''low_freq'') (kw ''high_freq'')))))"

section \<open>The feature dispatcher\<close>

definition get_audio_features :: "audio \<Rightarrow> string \<Rightarrow> kwargs \<Rightarrow> error + features" where
  "get_audio_features a feature_type kw =
     (if feature_type = ''raw'' then Inr (Raw (signal a))
      else if feature_type = ''mfcc'' then
        (let num_features = py_or (kw ''features'') 13
         in Inr (Mfcc (signal a) (sample_rate a) num_features (num_features * 2)
                   (py_or (kw ''low_freq'') 0)
                   (if truthy (kw ''high_freq'') then kw ''high_freq'' else None)))
      else if feature_type = ''spec'' then
        (case framer a of
           Inl e \<Rightarrow> Inl e
         | Inr (fsize, nframes, frames) \<Rightarrow>
             (case spectrogram fsize nframes frames (sample_rate a) kw of
                Inl e \<Rightarrow> Inl e
              | Inr m \<Rightarrow> Inr (Spec m)))
      else Inl (ValueError (''Unsupported feature type: '' @ feature_type)))"

section \<open>Properties of the frame size and hop size\<close>

lemma py_int_div:
  "0 < d \<Longrightarrow> py_int (real_of_int r / real_of_int d) = (if 0 \<le> r then r div d else - ((- r) div d))"
proof -
  assume d: "0 < d"
  have neg: "r < 0 \<Longrightarrow> real_of_int r / real_of_int d < 0"
    using d by (simp add: divide_neg_pos)
  have pos: "0 \<le> r \<Longrightarrow> \<not> real_of_int r / real_of_int d < 0"
    using d by (simp add: not_less)
  have c: "\<lceil>real_of_int r / real_of_int d\<rceil> = - ((- r) div d)"
  proof -
    have "- (real_of_int r / real_of_int d) = real_of_int (- r) / real_of_int d" by simp
    then have "\<lfloor>- (real_of_int r / real_of_int d)\<rfloor> = (- r) div d"
      by (simp only: floor_divide_of_int_eq)
    then show ?thesis by (simp add: ceiling_def)
  qed
  show ?thesis
    using neg pos c by (auto simp: py_int_def floor_divide_of_int_eq)
qed

lemma hop_size_eq:
  "hop_size a = (if 0 \<le> sample_rate a then sample_rate a div 100 else - ((- sample_rate a) div 100))"
  using py_int_div[of 100 "sample_rate a"] by (simp add: hop_size_def step_size_def)

lemma frame_size_eq:
  "frame_size a = (if 0 \<le> sample_rate a then sample_rate a div 50 else - ((- sample_rate a) div 50))"
  using py_int_div[of 50 "sample_rate a"] by (simp add: frame_size_def window_size_def)

lemma delta_freq_50: "delta_freq = 50"
  by (simp add: delta_freq_def window_size_def)

lemma sizes_pos:
  assumes "0 < hop_size a"
  shows "2 * hop_size a \<le> frame_size a" and "frame_size a \<le> 2 * hop_size a + 1"
    and "100 \<le> sample_rate a"
  using assms unfolding hop_size_eq frame_size_eq by (auto split: if_splits)

lemma sizes_neg:
  assumes "hop_size a < 0"
  shows "frame_size a < 0"
  using assms unfolding hop_size_eq frame_size_eq by (auto split: if_splits)

lemma py_int_nonneg: "0 \<le> x \<Longrightarrow> py_int x = \<lfloor>x\<rfloor>"
  by (simp add: py_int_def)

text \<open>
  Claim C3, as stated: for every sample rate, \<open>frame_size\<close> is
  \<open>round(0.020 * sample_rate)\<close> and \<open>hop_size\<close> is \<open>round(0.010 * sample_rate)\<close>.
  The program converts the products with \<open>int\<close>, which truncates. At 16080 Hz the
  products are 321.6 and 160.8: the program takes 321 and 160, rounding to the nearest
  integer gives 322 and 161.
\<close>

theorem sizes_round_counterexample:
  "frame_size \<lparr>signal = [], sample_rate = 16080, sample_width = 16, channels = 1\<rparr> = 321 \<and>
   round (0.020 * real_of_int 16080) = 322 \<and>
   hop_size \<lparr>signal = [], sample_rate = 16080, sample_width = 16, channels = 1\<rparr> = 160 \<and>
   round (0.010 * real_of_int 16080) = 161"
  by (simp add: frame_size_eq hop_size_eq round_def)

text \<open>
  Claim C3, amended: for every sample rate, \<open>frame_size\<close> and \<open>hop_size\<close> are the
  products \<open>0.020 * sample_rate\<close> and \<open>0.010 * sample_rate\<close> truncated toward zero:
  for a non-negative rate the floor of the product, \<open>sample_rate div 50\<close> and
  \<open>sample_rate div 100\<close>.
\<close>

theorem sizes_truncate:
  "frame_size a = py_int (0.020 * real_of_int (sample_rate a)) \<and>
   hop_size a = py_int (0.010 * real_of_int (sample_rate a)) \<and>
   frame_size a =
     (if 0 \<le> sample_rate a then sample_rate a div 50 else - ((- sample_rate a) div 50)) \<and>
   hop_size a =
     (if 0 \<le> sample_rate a then sample_rate a div 100 else - ((- sample_rate a) div 100)) \<and>
   (if 0 \<le> sample_rate a
    then frame_size a = \<lfloor>0.020 * real_of_int (sample_rate a)\<rfloor> \<and>
         hop_size a = \<lfloor>0.010 * real_of_int (sample_rate a)\<rfloor>
    else frame_size a = \<lceil>0.020 * real_of_int (sample_rate a)\<rceil> \<and>
         hop_size a = \<lceil>0.010 * real_of_int (sample_rate a)\<rceil>)"
proof -
  have f: "frame_size a = py_int (0.020 * real_of_int (sample_rate a))"
    by (simp add: frame_size_def window_size_def)
  have h: "hop_size a = py_int (0.010 * real_of_int (sample_rate a))"
    by (simp add: hop_size_def step_size_def)
  have t: "(if 0 \<le> sample_rate a
    then frame_size a = \<lfloor>0.020 * real_of_int (sample_rate a)\<rfloor> \<and>
         hop_size a = \<lfloor>0.010 * real_of_int (sample_rate a)\<rfloor>
    else frame_size a = \<lceil>0.020 * real_of_int (sample_rate a)\<rceil> \<and>
         hop_size a = \<lceil>0.010 * real_of_int (sample_rate a)\<rceil>)"
    unfolding f h by (simp add: py_int_def not_le)
  show ?thesis using f h t frame_size_eq[of a] hop_size_eq[of a] by (intro conjI)
qed

section \<open>Properties of the signal normalizer\<close>

lemma length_scale_signal [simp]: "length (scale_signal a) = length (signal a)"
  by (simp add: scale_signal_def)

lemma scale_signal_divides:
  "length (scale_signal a) = length (signal a) \<and>
   (\<forall>i < length (signal a). scale_signal a ! i = signal a ! i / 2 powi (sample_width a - 1)) \<and>
   (0 < sample_width a \<longrightarrow>
      scale_signal a = map (\<lambda>x. x / 2 ^ (nat (sample_width a) - 1)) (signal a))"
proof -
  have "0 < sample_width a \<Longrightarrow> (2::real) powi (sample_width a - 1) = 2 ^ (nat (sample_width a) - 1)"
    by (simp add: power_int_def nat_diff_distrib')
  then show ?thesis by (simp add: scale_signal_def)
qed


section \<open>Properties of the framer\<close>

lemma remove_nat:
  assumes "0 < hop_size a" and "frame_size a \<le> int (length (signal a))"
  shows "remove a = int ((length (signal a) - nat (frame_size a)) mod nat (hop_size a))"
proof -
  have F: "0 \<le> frame_size a" using sizes_pos(1)[OF assms(1)] assms(1) by linarith
  have "int (length (signal a)) - frame_size a = int (length (signal a) - nat (frame_size a))"
    using F assms(2) by simp
  moreover have "hop_size a = int (nat (hop_size a))" using assms(1) by simp
  ultimately show ?thesis
    unfolding remove_def length_scale_signal by (metis zmod_int)
qed

lemma clean_nat:
  assumes "0 < hop_size a" and "frame_size a \<le> int (length (signal a))"
  shows "clean a = take (length (signal a) - (length (signal a) - nat (frame_size a)) mod nat (hop_size a)) (scale_signal a)"
proof -
  let ?R = "(length (signal a) - nat (frame_size a)) mod nat (hop_size a)"
  have R: "remove a = int ?R" by (rule remove_nat[OF assms])
  have le: "?R \<le> length (signal a)"
    by (meson diff_le_self le_trans mod_less_eq_dividend)
  show ?thesis
  proof (cases "?R = 0")
    case True
    then show ?thesis by (simp add: clean_def R)
  next
    case False
    then have "slice_index (length (signal a)) (- int ?R) = length (signal a) - ?R"
      using le by (simp add: slice_index_def nat_diff_distrib')
    then show ?thesis using False by (simp add: clean_def R py_slice_def slice_index_def)
  qed
qed

lemma framing_arith:
  fixes L F H :: nat
  assumes "0 < H" and "F \<le> L"
  shows "(int (L - (L - F) mod H) - int F) div int H + 1 = int ((L - F) div H + 1)"
proof -
  define R where "R = (L - F) mod H"
  have R: "R \<le> L - F" unfolding R_def by (rule mod_less_eq_dividend)
  have "(L - F) - R = H * ((L - F) div H)"
    unfolding R_def by (simp add: minus_mod_eq_mult_div)
  moreover have "int (L - R) - int F = int ((L - F) - R)"
    using R assms(2) by linarith
  ultimately have "(int (L - R) - int F) div int H = int ((L - F) div H)"
    using assms(1) by (simp add: zdiv_int[symmetric] del: of_nat_mult)
  then show ?thesis unfolding R_def by simp
qed

lemma num_frames_nat:
  assumes "0 < hop_size a" and "frame_size a \<le> int (length (signal a))"
  shows "num_frames a = int ((length (signal a) - nat (frame_size a)) div nat (hop_size a) + 1)"
proof -
  have F: "0 \<le> frame_size a" using sizes_pos(1)[OF assms(1)] assms(1) by linarith
  have FL: "nat (frame_size a) \<le> length (signal a)" using assms(2) F by simp
  have H: "0 < nat (hop_size a)" using assms(1) by simp
  show ?thesis
    using framing_arith[OF H FL] F assms(1)
    by (simp add: num_frames_def clean_nat[OF assms])
qed

lemma length_as_strided [simp]: "length (as_strided c F N H) = F"
  by (simp add: as_strided_def)

lemma as_strided_row: "k < F \<Longrightarrow> as_strided c F N H ! k = map (\<lambda>i. c ! (k + i * H)) [0..<N]"
  by (simp add: as_strided_def)

lemma as_strided_rows_length: "row \<in> set (as_strided c F N H) \<Longrightarrow> length row = N"
  by (auto simp: as_strided_def)

lemma frame_as_strided:
  assumes "i < N"
  shows "frame (as_strided c F N H) i = map (\<lambda>k. c ! (k + i * H)) [0..<F]"
  using assms by (simp add: frame_def as_strided_def)

lemma take_drop_nth_map:
  assumes "s + F \<le> length c"
  shows "take F (drop s c) = map (\<lambda>k. c ! (k + s)) [0..<F]"
  using assms by (intro nth_equalityI) (simp_all add: add.commute)

lemma frame_window:
  assumes "i < N" and "i * H + F \<le> length c"
  shows "frame (as_strided c F N H) i = take F (drop (i * H) c)"
  using assms by (simp add: frame_as_strided take_drop_nth_map)

lemma frames_in_bounds:
  fixes L F H :: nat
  assumes "0 < H" and "F \<le> L" and "i < (L - F) div H + 1"
  shows "i * H + F \<le> L - (L - F) mod H"
proof -
  have "i \<le> (L - F) div H" using assms(3) by simp
  then have "i * H \<le> (L - F) div H * H" by (rule mult_le_mono1)
  also have "\<dots> = (L - F) - (L - F) mod H" by (simp add: minus_mod_eq_div_mult)
  finally have "i * H + F \<le> (L - F) - (L - F) mod H + F" by simp
  moreover have "(L - F) mod H \<le> L - F" by (rule mod_less_eq_dividend)
  ultimately show ?thesis using assms(2) by linarith
qed

lemma overlap_card:
  fixes F H i :: nat
  shows "card ({i * H ..< i * H + F} \<inter> {Suc i * H ..< Suc i * H + F}) = F - H"
proof -
  have "{i * H ..< i * H + F} \<inter> {Suc i * H ..< Suc i * H + F} = {Suc i * H ..< i * H + F}"
    by auto
  then show ?thesis by simp
qed

lemma overlap_samples:
  assumes "Suc i * H + F \<le> length c" and "H \<le> F"
  shows "drop H (take F (drop (i * H) c)) = take (F - H) (take F (drop (Suc i * H) c))"
proof -
  have "drop H (take F (drop (i * H) c)) = take (F - H) (drop H (drop (i * H) c))"
    by (simp add: drop_take)
  also have "drop H (drop (i * H) c) = drop (Suc i * H) c"
    by (simp add: add.commute)
  finally show ?thesis by simp
qed

lemma framer_value:
  assumes "0 < hop_size a" and "frame_size a \<le> int (length (signal a))"
  shows "framer a = Inr (nat (frame_size a), nat (num_frames a),
           as_strided (clean a) (nat (frame_size a)) (nat (num_frames a)) (nat (hop_size a)))"
proof -
  have "0 \<le> frame_size a" using sizes_pos(1)[OF assms(1)] assms(1) by linarith
  moreover have "0 \<le> num_frames a" by (simp add: num_frames_nat[OF assms])
  ultimately show ?thesis using assms(1) by (simp add: framer_def)
qed

text \<open>
  Claim C2: for a signal of length \<open>L\<close> at least the frame size \<open>F\<close>, with a hop size
  \<open>H\<close> of at least one sample, the framer cuts off the last
  \<open>remove = (L - F) mod H\<close> samples, produces \<open>(L - remove - F) div H + 1\<close> frames, frame
  \<open>i\<close> is the samples \<open>[i * H, i * H + F)\<close> of the truncated signal, and two consecutive
  frames share \<open>F - H\<close> samples: the sample ranges meet in \<open>F - H\<close> positions, with
  \<open>H \<le> F\<close>, and the last \<open>F - H\<close> samples of one frame are the first of the next.
\<close>

theorem framer_frames:
  assumes "0 < hop_size a" and "frame_size a \<le> int (length (signal a))"
  shows "case framer a of
           Inl e \<Rightarrow> False
         | Inr (fsize, nframes, frames) \<Rightarrow>
             int fsize = frame_size a \<and>
             remove a = (int (length (signal a)) - frame_size a) mod hop_size a \<and>
             clean a = take (length (signal a) - nat (remove a)) (scale_signal a) \<and>
             int nframes =
               (int (length (signal a)) - remove a - frame_size a) div hop_size a + 1 \<and>
             length frames = fsize \<and> (\<forall>row \<in> set frames. length row = nframes) \<and>
             (\<forall>i < nframes.
                i * nat (hop_size a) + fsize \<le> length (clean a) \<and>
                frame frames i = take fsize (drop (i * nat (hop_size a)) (clean a))) \<and>
             hop_size a \<le> frame_size a \<and>
             (\<forall>i. Suc i < nframes \<longrightarrow>
                card ({i * nat (hop_size a) ..< i * nat (hop_size a) + fsize} \<inter>
                      {Suc i * nat (hop_size a) ..< Suc i * nat (hop_size a) + fsize})
                  = fsize - nat (hop_size a) \<and>
                drop (nat (hop_size a)) (frame frames i)
                  = take (fsize - nat (hop_size a)) (frame frames (Suc i)))"
proof -
  define L where "L = length (signal a)"
  define F where "F = nat (frame_size a)"
  define H where "H = nat (hop_size a)"
  define N where "N = (L - F) div H + 1"
  define c where "c = clean a"
  have Fpos: "0 \<le> frame_size a" using sizes_pos(1)[OF assms(1)] assms(1) by linarith
  have Fi: "int F = frame_size a" using Fpos by (simp add: F_def)
  have Hi: "int H = hop_size a" using assms(1) by (simp add: H_def)
  have H0: "0 < H" using assms(1) by (simp add: H_def)
  have FL: "F \<le> L" using assms(2) Fpos by (simp add: F_def L_def)
  have HF: "H \<le> F" using sizes_pos(1)[OF assms(1)] assms(1) Fi Hi by linarith
  have R: "remove a = int ((L - F) mod H)"
    unfolding L_def F_def H_def by (rule remove_nat[OF assms])
  have Ni: "num_frames a = int N"
    unfolding N_def L_def F_def H_def by (rule num_frames_nat[OF assms])
  have c_eq: "c = take (L - (L - F) mod H) (scale_signal a)"
    unfolding c_def L_def F_def H_def by (rule clean_nat[OF assms])
  have len_c: "length c = L - (L - F) mod H"
    by (simp add: c_eq L_def)
  have fr: "framer a = Inr (F, N, as_strided c F N H)"
    using framer_value[OF assms] by (simp add: F_def H_def c_def Ni)
  have bounds: "i * H + F \<le> length c" if "i < N" for i
    using frames_in_bounds[OF H0 FL] that by (simp add: len_c N_def)
  have win: "frame (as_strided c F N H) i = take F (drop (i * H) c)" if "i < N" for i
    using that bounds[OF that] by (rule frame_window)
  have rdef: "remove a = (int L - frame_size a) mod hop_size a"
    by (simp add: remove_def L_def)
  have nf: "int N = (int L - remove a - frame_size a) div hop_size a + 1"
  proof -
    have "int (length c) = int L - remove a"
      using R len_c FL by (simp add: le_trans[OF mod_less_eq_dividend diff_le_self])
    then show ?thesis using Ni by (simp add: num_frames_def c_def)
  qed
  have ov: "drop H (frame (as_strided c F N H) i) = take (F - H) (frame (as_strided c F N H) (Suc i))"
    if "Suc i < N" for i
  proof -
    have i: "i < N" using that by simp
    show ?thesis
      unfolding win[OF i] win[OF that]
      using overlap_samples[OF bounds[OF that] HF] by simp
  qed
  have c3: "c = take (L - nat (remove a)) (scale_signal a)"
    using c_eq R by simp
  have f5: "length (as_strided c F N H) = F" by simp
  have f6: "\<forall>row \<in> set (as_strided c F N H). length row = N"
    by (simp add: as_strided_rows_length)
  have f7: "\<forall>i < N. i * H + F \<le> length c \<and>
            frame (as_strided c F N H) i = take F (drop (i * H) c)"
    using bounds win by blast
  have f8: "hop_size a \<le> frame_size a" using HF Fi Hi by linarith
  have f9: "\<forall>i. Suc i < N \<longrightarrow>
            card ({i * H ..< i * H + F} \<inter> {Suc i * H ..< Suc i * H + F}) = F - H \<and>
            drop H (frame (as_strided c F N H) i) = take (F - H) (frame (as_strided c F N H) (Suc i))"
    using ov overlap_card by blast
  have "int F = frame_size a \<and>
        remove a = (int L - frame_size a) mod hop_size a \<and>
        c = take (L - nat (remove a)) (scale_signal a) \<and>
        int N = (int L - remove a - frame_size a) div hop_size a + 1 \<and>
        length (as_strided c F N H) = F \<and> (\<forall>row \<in> set (as_strided c F N H). length row = N) \<and>
        (\<forall>i < N. i * H + F \<le> length c \<and>
            frame (as_strided c F N H) i = take F (drop (i * H) c)) \<and>
        hop_size a \<le> frame_size a \<and>
        (\<forall>i. Suc i < N \<longrightarrow>
            card ({i * H ..< i * H + F} \<inter> {Suc i * H ..< Suc i * H + F}) = F - H \<and>
            drop H (frame (as_strided c F N H) i) = take (F - H) (frame (as_strided c F N H) (Suc i)))"
    using Fi rdef c3 nf f5 f6 f7 f8 f9 by (intro conjI)
  then show ?thesis
    unfolding fr sum.case prod.case L_def H_def c_def .
qed

theorem framer_frames_witness:
  "0 < hop_size \<lparr>signal = [1, 2, 3, 4, 5, 6, 7], sample_rate = 200, sample_width = 3, channels = 1\<rparr> \<and>
   frame_size \<lparr>signal = [1, 2, 3, 4, 5, 6, 7], sample_rate = 200, sample_width = 3, channels = 1\<rparr>
     \<le> int (length (signal \<lparr>signal = [1, 2, 3, 4, 5, 6, 7], sample_rate = 200, sample_width = 3, channels = 1\<rparr>)) \<and>
   framer \<lparr>signal = [1, 2, 3, 4, 5, 6, 7], sample_rate = 200, sample_width = 3, channels = 1\<rparr>
     = Inr (4, 2, [[1 / 4, 3 / 4], [1 / 2, 1], [3 / 4, 5 / 4], [1, 3 / 2]])"
proof -
  let ?a = "\<lparr>signal = [1, 2, 3, 4, 5, 6, 7], sample_rate = 200, sample_width = 3, channels = 1 :: int\<rparr>"
  have h1: "0 < hop_size ?a" by (simp add: hop_size_eq)
  have h2: "frame_size ?a \<le> int (length (signal ?a))" by (simp add: frame_size_eq)
  have v: "framer ?a = Inr (4, 2, [[1 / 4, 3 / 4], [1 / 2, 1], [3 / 4, 5 / 4], [1, 3 / 2]])"
    by code_simp
  show ?thesis using h1 h2 v framer_frames[OF h1 h2] by simp
qed

section \<open>Properties of the feature dispatcher\<close>

text \<open>
  Claim C9: a feature type other than \<open>raw\<close>, \<open>mfcc\<close> and \<open>spec\<close> fails with
  \<open>ValueError\<close>, Python's error for an invalid argument, and the message names the
  feature type; for the three supported types this error is not the result.
\<close>

theorem unsupported_feature_type:
  "(feature_type \<notin> {''raw'', ''mfcc'', ''spec''} \<longrightarrow>
      get_audio_features a feature_type kw
        = Inl (ValueError (''Unsupported feature type: '' @ feature_type))) \<and>
   (feature_type \<in> {''raw'', ''mfcc'', ''spec''} \<longrightarrow>
      get_audio_features a feature_type kw
        \<noteq> Inl (ValueError (''Unsupported feature type: '' @ feature_type)))"
proof -
  have "get_audio_features a ''spec'' kw \<noteq> Inl (ValueError (''Unsupported feature type: '' @ ''spec''))"
    by (auto simp: get_audio_features_def framer_def spectrogram_def Let_def
             split: sum.splits prod.splits if_splits)
  then show ?thesis
    by (auto simp: get_audio_features_def Let_def)
qed

theorem unsupported_feature_type_witness:
  "''bogus'' \<notin> {''raw'', ''mfcc'', ''spec''} \<and>
   get_audio_features \<lparr>signal = [1, 2], sample_rate = 16000, sample_width = 16, channels = 1\<rparr>
       ''bogus'' Map.empty
     = Inl (ValueError ''Unsupported feature type: bogus'') \<and>
   ''raw'' \<in> {''raw'', ''mfcc'', ''spec''} \<and>
   get_audio_features \<lparr>signal = [1, 2], sample_rate = 16000, sample_width = 16, channels = 1\<rparr>
       ''raw'' Map.empty
     \<noteq> Inl (ValueError ''Unsupported feature type: raw'')"
  using unsupported_feature_type[of "''bogus''" "\<lparr>signal = [1, 2], sample_rate = 16000, sample_width = 16, channels = 1\<rparr>" Map.empty]
    unsupported_feature_type[of "''raw''" "\<lparr>signal = [1, 2], sample_rate = 16000, sample_width = 16, channels = 1\<rparr>" Map.empty]
  by simp

section \<open>Properties of the frequency crop\<close>

lemma py_int_clamp: "max (py_int (x + 1 / 2)) 0 = max (round x) 0"
proof (cases "x + 1 / 2 < 0")
  case True
  then have "\<lceil>x + 1 / 2\<rceil> \<le> 0" by (simp add: ceiling_le_iff)
  moreover have "\<lfloor>x + 1 / 2\<rfloor> \<le> 0" using True by (simp add: floor_le_iff)
  ultimately show ?thesis using True by (simp add: py_int_def round_def)
next
  case False
  then show ?thesis by (simp add: py_int_def round_def)
qed

lemma get_bin_unset: "\<not> truthy f \<Longrightarrow> get_bin nb f alt = alt"
  by (simp add: get_bin_def truthy_def split: option.splits)

lemma get_bin_set:
  "f \<noteq> 0 \<Longrightarrow> get_bin nb (Some f) alt = min (max (round (f / delta_freq)) 0) nb"
  by (simp add: get_bin_def py_int_clamp)

lemma get_bin_range:
  assumes "0 \<le> nb" and "0 \<le> alt" and "alt \<le> nb"
  shows "0 \<le> get_bin nb f alt \<and> get_bin nb f alt \<le> nb"
  using assms by (simp add: get_bin_def split: option.splits)

lemma py_slice_range:
  assumes "0 \<le> lo" and "0 \<le> hi" and "hi \<le> int (length xs)"
  shows "py_slice xs lo hi = drop (nat lo) (take (nat hi) xs)"
proof -
  have "slice_index (length xs) hi = nat hi" using assms by (simp add: slice_index_def)
  moreover have "drop (slice_index (length xs) lo) (take (nat hi) xs) = drop (nat lo) (take (nat hi) xs)"
    using assms by (simp add: slice_index_def min_def)
  ultimately show ?thesis by (simp add: py_slice_def)
qed

lemma drop_take_nth:
  "\<forall>j. j < length (drop lo (take hi xs)) \<longrightarrow> drop lo (take hi xs) ! j = xs ! (lo + j)"
proof (intro allI impI)
  fix j
  assume "j < length (drop lo (take hi xs))"
  then have b: "lo + j < hi" "lo + j < length xs" by simp_all
  then have "lo \<le> length (take hi xs)" by simp
  then have "drop lo (take hi xs) ! j = take hi xs ! (lo + j)" by simp
  then show "drop lo (take hi xs) ! j = xs ! (lo + j)" using b by simp
qed

lemma crop_slice:
  "crop spec low_freq high_freq =
     drop (nat (get_bin (int (length spec)) low_freq 0))
       (take (nat (get_bin (int (length spec)) high_freq (int (length spec)))) spec)"
proof (cases "truthy low_freq \<or> truthy high_freq")
  case True
  have lo: "0 \<le> get_bin (int (length spec)) low_freq 0"
    using get_bin_range[of "int (length spec)" 0 low_freq] by simp
  have hi: "0 \<le> get_bin (int (length spec)) high_freq (int (length spec))
            \<and> get_bin (int (length spec)) high_freq (int (length spec)) \<le> int (length spec)"
    using get_bin_range[of "int (length spec)" "int (length spec)" high_freq] by simp
  show ?thesis using True py_slice_range[OF lo conjunct1[OF hi] conjunct2[OF hi]]
    by (simp add: crop_def Let_def)
next
  case False
  then show ?thesis by (simp add: crop_def get_bin_unset)
qed

section \<open>Shapes of the spectral arrays\<close>

lemma length_rfft [simp]: "length (rfft n m x) = n div 2 + 1"
  by (simp add: rfft_def)

lemma rfft_rows_length: "row \<in> set (rfft n m x) \<Longrightarrow> length row = m"
  by (auto simp: rfft_def)

lemma length_norm_of [simp]: "length (norm_of fsize nframes frames) = fsize div 2 + 1"
  by (simp add: norm_of_def absolute_sq_def)

lemma norm_of_rows_length: "row \<in> set (norm_of fsize nframes frames) \<Longrightarrow> length row = nframes"
  by (auto simp: norm_of_def absolute_sq_def rfft_rows_length)

lemma length_divide_inner [simp]: "length (divide_inner s d) = length s"
  by (simp add: divide_inner_def)

lemma divide_inner_nth:
  "j < length s \<Longrightarrow> divide_inner s d ! j =
     (if 1 \<le> j \<and> j + 1 < length s then map (\<lambda>v. np_divide v d) (s ! j) else s ! j)"
  by (simp add: divide_inner_def)

lemma length_divide_edges [simp]: "length (divide_edges s d) = length s"
  by (simp add: divide_edges_def Let_def)

lemma divide_edges_nth:
  "j < length s \<Longrightarrow> divide_edges s d ! j =
     (if j = 0 \<or> j = length s - 1 then map (\<lambda>v. np_divide v d) (s ! j) else s ! j)"
  by (auto simp: divide_edges_def Let_def nth_list_update)

lemma length_scaled [simp]: "length (scaled fsize nframes frames rate) = fsize div 2 + 1"
  by (simp add: scaled_def)

lemma scaled_row:
  assumes "j < fsize div 2 + 1"
  shows "scaled fsize nframes frames rate ! j =
     map (\<lambda>v. np_divide v (if j = 0 \<or> j = fsize div 2 then scale fsize rate
                               else scale fsize rate / 2))
       (norm_of fsize nframes frames ! j)"
  using assms by (auto simp: scaled_def divide_edges_nth divide_inner_nth)

lemma scaled_rows_length:
  assumes "row \<in> set (scaled fsize nframes frames rate)"
  shows "length row = nframes"
proof -
  obtain j where j: "j < fsize div 2 + 1" and r: "row = scaled fsize nframes frames rate ! j"
    using assms by (auto simp: in_set_conv_nth)
  have "norm_of fsize nframes frames ! j \<in> set (norm_of fsize nframes frames)"
    using j by simp
  then have "length (norm_of fsize nframes frames ! j) = nframes"
    by (rule norm_of_rows_length)
  then show ?thesis using j r by (simp add: scaled_row)
qed

lemma length_np_transpose [simp]: "length (np_transpose m a) = m"
  by (simp add: np_transpose_def)

lemma np_transpose_rows_length: "row \<in> set (np_transpose m a) \<Longrightarrow> length row = length a"
  by (auto simp: np_transpose_def)

lemma framer_success:
  assumes "framer a = Inr (fsize, nframes, frames)"
  shows "0 < hop_size a" and "int fsize = frame_size a" and "int nframes = num_frames a"
    and "2 \<le> fsize"
proof -
  have h0: "hop_size a \<noteq> 0" and f0: "0 \<le> frame_size a" and n0: "0 \<le> num_frames a"
    using assms by (auto simp: framer_def split: if_splits)
  show h: "0 < hop_size a" using h0 f0 sizes_neg[of a] by linarith
  show "int fsize = frame_size a" "int nframes = num_frames a"
    using assms h0 f0 n0 by (auto simp: framer_def split: if_splits)
  then show "2 \<le> fsize" using sizes_pos(1)[OF h] h by linarith
qed

lemma spec_of_framer:
  assumes "framer a = Inr (fsize, nframes, frames)"
  shows "get_audio_features a ''spec'' kw =
     Inr (Spec (np_transpose nframes
        (map (map np_log)
           (pre_log fsize nframes frames (sample_rate a) (kw ''low_freq'') (kw ''high_freq'')))))"
  using assms framer_success(4)[OF assms]
  by (simp add: get_audio_features_def spectrogram_def)

lemma spec_shape:
  assumes "framer a = Inr (fsize, nframes, frames)"
    and "kw ''low_freq'' = None" and "kw ''high_freq'' = None"
  shows "case get_audio_features a ''spec'' kw of
           Inr (Spec m) \<Rightarrow> length m = nframes \<and> (\<forall>row \<in> set m. length row = fsize div 2 + 1)
         | _ \<Rightarrow> False"
  unfolding spec_of_framer[OF assms(1)]
  by (simp add: assms(2,3) np_transpose_rows_length pre_log_def crop_def truthy_def)

text \<open>
  Claim C6, as stated: for every buffer with \<open>len(signal) \<ge> frame_size\<close>, the \<open>spec\<close>
  feature with both cutoffs unset returns a spectrogram with \<open>frame_size div 2 + 1\<close>
  frequency bins. A buffer sampled at less than 100 Hz has \<open>hop_size = 0\<close>: at 60 Hz
  and five samples the frame size is 1, the signal is long enough, and the modulo by the
  hop size raises \<open>ZeroDivisionError\<close>.
\<close>

theorem unset_cutoffs_counterexample:
  "frame_size \<lparr>signal = [1, 2, 3, 4, 5], sample_rate = 60, sample_width = 16, channels = 1\<rparr>
     \<le> int (length (signal \<lparr>signal = [1, 2, 3, 4, 5], sample_rate = 60, sample_width = 16, channels = 1\<rparr>)) \<and>
   get_audio_features \<lparr>signal = [1, 2, 3, 4, 5], sample_rate = 60, sample_width = 16, channels = 1\<rparr>
       ''spec'' Map.empty
     = Inl ZeroDivisionError"
  by (simp add: frame_size_eq hop_size_eq get_audio_features_def framer_def)

text \<open>
  Claim C6, amended: for every buffer with \<open>hop_size \<ge> 1\<close> (a sample rate of at least
  100 Hz) and \<open>len(signal) \<ge> frame_size\<close>, the \<open>spec\<close> feature with both cutoffs unset
  returns a spectrogram of \<open>num_frames \<ge> 1\<close> time frames, each with
  \<open>frame_size div 2 + 1\<close> frequency bins.
\<close>

theorem unset_cutoffs_bin_count:
  assumes "0 < hop_size a" and "frame_size a \<le> int (length (signal a))"
    and "kw ''low_freq'' = None" and "kw ''high_freq'' = None"
  shows "case get_audio_features a ''spec'' kw of
           Inr (Spec m) \<Rightarrow>
             length m = nat (num_frames a) \<and> 0 < length m \<and>
             (\<forall>row \<in> set m. length row = nat (frame_size a) div 2 + 1)
         | _ \<Rightarrow> False"
proof -
  have n: "0 < nat (num_frames a)" by (simp add: num_frames_nat[OF assms(1,2)])
  show ?thesis
    using spec_shape[OF framer_value[OF assms(1,2)] assms(3,4)] n
    by (auto split: sum.splits features.splits)
qed

theorem unset_cutoffs_bin_count_witness:
  "0 < hop_size \<lparr>signal = [1, 2, 3, 4, 5, 6, 7], sample_rate = 200, sample_width = 3, channels = 1\<rparr> \<and>
   frame_size \<lparr>signal = [1, 2, 3, 4, 5, 6, 7], sample_rate = 200, sample_width = 3, channels = 1\<rparr>
     \<le> int (length (signal \<lparr>signal = [1, 2, 3, 4, 5, 6, 7], sample_rate = 200, sample_width = 3, channels = 1\<rparr>)) \<and>
   (Map.empty :: kwargs) ''low_freq'' = None \<and> (Map.empty :: kwargs) ''high_freq'' = None \<and>
   (case get_audio_features \<lparr>signal = [1, 2, 3, 4, 5, 6, 7], sample_rate = 200, sample_width = 3, channels = 1\<rparr>
           ''spec'' Map.empty of
      Inr (Spec m) \<Rightarrow> length m = 2 \<and> (\<forall>row \<in> set m. length row = 3)
    | _ \<Rightarrow> False)"
proof -
  let ?a = "\<lparr>signal = [1, 2, 3, 4, 5, 6, 7], sample_rate = 200, sample_width = 3, channels = 1 :: int\<rparr>"
  have h1: "0 < hop_size ?a" by (simp add: hop_size_eq)
  have f: "frame_size ?a = 4" by (simp add: frame_size_eq)
  have h2: "frame_size ?a \<le> int (length (signal ?a))" by (simp add: f)
  have n: "num_frames ?a = 2" by code_simp
  show ?thesis
    using h1 h2 unset_cutoffs_bin_count[OF h1 h2, of Map.empty]
    by (simp add: f n split: sum.splits features.splits)
qed

section \<open>Signals shorter than one frame\<close>

lemma length_clean:
  assumes "0 < hop_size a"
  shows "int (length (clean a)) = max 0 (int (length (signal a)) - remove a)"
proof -
  have r: "0 \<le> remove a" using assms by (simp add: remove_def)
  show ?thesis
  proof (cases "remove a = 0")
    case True
    then show ?thesis by (simp add: clean_def)
  next
    case False
    then have "0 < remove a" using r by simp
    then show ?thesis
      using False by (simp add: clean_def py_slice_def slice_index_def)
  qed
qed

lemma short_arith_zero:
  fixes L F H :: int
  assumes "0 < H" and "L < F" and "F - L \<le> H" and "2 * H \<le> F"
  shows "(max 0 (L - (L - F) mod H) - F) div H + 1 = 0"
proof -
  have "0 \<le> L - F + H" "L - F + H < H" using assms by simp_all
  then have t: "(L - F + H) mod H = L - F + H" by (rule mod_pos_pos_trivial)
  have "(L - F) mod H = (L - F + H) mod H" by simp
  also note t
  finally have R: "(L - F) mod H = L - F + H" .
  have "L - (L - F) mod H = F - H" unfolding R by simp
  moreover have "0 \<le> F - H" using assms by simp
  ultimately have "max 0 (L - (L - F) mod H) - F = - H" by simp
  moreover have "(- H + H) div H = (- H) div H + 1"
    by (rule div_add_self2) (use assms(1) in simp)
  ultimately show ?thesis by simp
qed

lemma short_arith_neg:
  fixes L F H :: int
  assumes "0 < H" and "0 \<le> L" and "L < F" and "H < F - L" and "2 * H \<le> F"
  shows "(max 0 (L - (L - F) mod H) - F) div H + 1 < 0"
proof -
  define R where "R = (L - F) mod H"
  have R0: "0 \<le> R" and RH: "R < H" using assms(1) by (simp_all add: R_def)
  have "max 0 (L - R) - F + H < 0"
    using assms R0 RH by (simp add: max_def)
  then have "(max 0 (L - R) - F + H) div H < 0"
    using assms(1) by (simp only: pos_imp_zdiv_neg_iff)
  moreover have "(max 0 (L - R) - F + H) div H = (max 0 (L - R) - F) div H + 1"
    using assms(1) by simp
  ultimately show ?thesis unfolding R_def by simp
qed

lemma num_frames_max:
  assumes "0 < hop_size a"
  shows "num_frames a =
     (max 0 (int (length (signal a)) - (int (length (signal a)) - frame_size a) mod hop_size a)
        - frame_size a) div hop_size a + 1"
  by (simp add: num_frames_def length_clean[OF assms] remove_def)

lemma spec_short:
  assumes "int (length (signal a)) < frame_size a"
  shows "get_audio_features a ''spec'' kw =
     (if hop_size a = 0 then Inl ZeroDivisionError
      else if frame_size a - int (length (signal a)) \<le> hop_size a then Inr (Spec [])
      else Inl (ValueError ''negative dimensions are not allowed''))"
proof (cases "hop_size a = 0")
  case True
  then show ?thesis by (simp add: get_audio_features_def framer_def)
next
  case False
  have F: "0 < frame_size a" using assms by linarith
  have H: "0 < hop_size a" using False F sizes_neg[of a] by linarith
  have HF: "2 * hop_size a \<le> frame_size a" by (rule sizes_pos(1)[OF H])
  show ?thesis
  proof (cases "frame_size a - int (length (signal a)) \<le> hop_size a")
    case True
    have "num_frames a = 0"
      unfolding num_frames_max[OF H] by (rule short_arith_zero[OF H assms True HF])
    then have "framer a = Inr (nat (frame_size a), 0,
        as_strided (clean a) (nat (frame_size a)) 0 (nat (hop_size a)))"
      using H F by (simp add: framer_def)
    from spec_of_framer[OF this] show ?thesis
      using True False by (simp add: np_transpose_def)
  next
    case c: False
    have "num_frames a < 0"
      unfolding num_frames_max[OF H]
      by (rule short_arith_neg[OF H _ assms _ HF]) (use c in simp_all)
    then show ?thesis
      using c False by (simp add: get_audio_features_def framer_def)
  qed
qed

text \<open>
  Claim C4, as stated: a signal shorter than one frame makes the \<open>spec\<close> feature fail
  with an invalid-input error instead of returning an empty or malformed matrix. The
  program has no such check. At 16000 Hz (frame size 320, hop size 160) a signal of 300
  samples loses 140 samples to the truncation, \<open>num_frames\<close> is 0, and the call returns
  a spectrogram without time frames.
\<close>

theorem short_signal_counterexample:
  "int (length (signal \<lparr>signal = replicate 300 0, sample_rate = 16000, sample_width = 16, channels = 1\<rparr>))
     < frame_size \<lparr>signal = replicate 300 0, sample_rate = 16000, sample_width = 16, channels = 1\<rparr> \<and>
   get_audio_features \<lparr>signal = replicate 300 0, sample_rate = 16000, sample_width = 16, channels = 1\<rparr>
       ''spec'' Map.empty
     = Inr (Spec [])"
proof -
  let ?a = "\<lparr>signal = replicate 300 (0::real), sample_rate = 16000, sample_width = 16, channels = 1 :: int\<rparr>"
  have f: "frame_size ?a = 320" by (simp add: frame_size_eq)
  have h: "hop_size ?a = 160" by (simp add: hop_size_eq)
  have s: "int (length (signal ?a)) < frame_size ?a" by (simp add: f)
  show ?thesis using s spec_short[OF s, of Map.empty] by (simp add: f h)
qed

text \<open>
  Claim C4, amended: for a signal shorter than one frame the \<open>spec\<close> feature raises no
  invalid-input error of its own. With a zero hop size it fails with
  \<open>ZeroDivisionError\<close>; otherwise, when the signal is at most one hop short of a frame
  (\<open>frame_size - len(signal) \<le> hop_size\<close>), \<open>num_frames\<close> is 0 and the call returns a
  spectrogram without time frames; and when it is shorter, \<open>num_frames\<close> is negative
  and the strided view fails with \<open>ValueError\<close>.
\<close>

theorem short_signal_result:
  assumes "int (length (signal a)) < frame_size a"
  shows "get_audio_features a ''spec'' kw =
     (if hop_size a = 0 then Inl ZeroDivisionError
      else if frame_size a - int (length (signal a)) \<le> hop_size a then Inr (Spec [])
      else Inl (ValueError ''negative dimensions are not allowed''))"
  using assms by (rule spec_short)

theorem short_signal_result_witness:
  "int (length (signal \<lparr>signal = replicate 100 0, sample_rate = 16000, sample_width = 16, channels = 1\<rparr>))
     < frame_size \<lparr>signal = replicate 100 0, sample_rate = 16000, sample_width = 16, channels = 1\<rparr> \<and>
   get_audio_features \<lparr>signal = replicate 100 0, sample_rate = 16000, sample_width = 16, channels = 1\<rparr>
       ''spec'' Map.empty
     = Inl (ValueError ''negative dimensions are not allowed'')"
proof -
  let ?a = "\<lparr>signal = replicate 100 (0::real), sample_rate = 16000, sample_width = 16, channels = 1 :: int\<rparr>"
  have f: "frame_size ?a = 320" by (simp add: frame_size_eq)
  have h: "hop_size ?a = 160" by (simp add: hop_size_eq)
  have s: "int (length (signal ?a)) < frame_size ?a" by (simp add: f)
  show ?thesis using s short_signal_result[OF s, of Map.empty] by (simp add: f h)
qed

section \<open>The cropped spectrogram\<close>

lemma np_transpose_entry:
  assumes "t < m" and "j < length a"
  shows "np_transpose m a ! t ! j = a ! j ! t" and "length (np_transpose m a ! t) = length a"
  using assms by (simp_all add: np_transpose_def)

lemma scaled_nth_length:
  assumes "j < fsize div 2 + 1"
  shows "length (scaled fsize nframes frames rate ! j) = nframes"
proof -
  have "scaled fsize nframes frames rate ! j \<in> set (scaled fsize nframes frames rate)"
    using assms by simp
  then show ?thesis by (rule scaled_rows_length)
qed

lemma cropped_log_entry:
  assumes "t < nframes" and "j < hi - lo" and "hi \<le> fsize div 2 + 1"
  shows "np_transpose nframes
           (map (map np_log) (drop lo (take hi (scaled fsize nframes frames rate)))) ! t ! j
         = np_log (scaled fsize nframes frames rate ! (lo + j) ! t)"
    and "length (np_transpose nframes
           (map (map np_log) (drop lo (take hi (scaled fsize nframes frames rate)))) ! t)
         = hi - lo"
proof -
  let ?S = "scaled fsize nframes frames rate"
  let ?R = "map (map np_log) (drop lo (take hi ?S))"
  have len: "length ?R = hi - lo" using assms(3) by simp
  have j: "j < length (drop lo (take hi ?S))" using assms(2,3) by simp
  have b: "lo + j < fsize div 2 + 1" using assms(2,3) by linarith
  have n: "drop lo (take hi ?S) ! j = ?S ! (lo + j)"
    using drop_take_nth j by blast
  have "np_transpose nframes ?R ! t ! j = ?R ! j ! t"
    using assms(1,2) len by (simp only: np_transpose_entry(1))
  also have "?R ! j = map np_log (?S ! (lo + j))"
    using j n by simp
  also have "map np_log (?S ! (lo + j)) ! t = np_log (?S ! (lo + j) ! t)"
    using assms(1) scaled_nth_length[OF b] by simp
  finally show "np_transpose nframes ?R ! t ! j = np_log (?S ! (lo + j) ! t)" .
  show "length (np_transpose nframes ?R ! t) = hi - lo"
    using assms(1,2) len by (simp only: np_transpose_entry(2))
qed

text \<open>
  Claim C5: with \<open>delta_freq = 1 / 0.020 = 50\<close>, a cutoff \<open>f\<close> given to the \<open>spec\<close>
  feature maps to the bin \<open>clamp(round(f / delta_freq), 0, num_bins)\<close> (the program adds
  0.5 and truncates, so a tie rounds up), 100 Hz to bin 2 and 2000 Hz to bin 40; a
  missing or zero cutoff maps to 0 for the low and to \<open>num_bins\<close> for the high cutoff;
  and the frequency axis of the spectrogram the feature returns is sliced to
  \<open>[low_bin, high_bin)\<close>: for every call whose framing succeeded the result is the
  transposed logarithm of the rows \<open>low_bin .. high_bin - 1\<close> of \<open>scaled\<close>, so every
  time frame has \<open>high_bin - low_bin\<close> bins and its bin \<open>j\<close> is the logarithm of bin
  \<open>low_bin + j\<close> of the uncropped spectrum.
\<close>

theorem crop_bins:
  assumes "framer a = Inr (fsize, nframes, frames)"
  shows
  "delta_freq = 50 \<and>
   get_bin nb None alt = alt \<and>
   get_bin nb (Some 0) alt = alt \<and>
   (f \<noteq> 0 \<longrightarrow> get_bin nb (Some f) alt = min (max (round (f / delta_freq)) 0) nb) \<and>
   (2 \<le> nb \<longrightarrow> get_bin nb (Some 100) alt = 2) \<and>
   (40 \<le> nb \<longrightarrow> get_bin nb (Some 2000) alt = 40) \<and>
   crop spec low_freq high_freq =
     drop (nat (get_bin (int (length spec)) low_freq 0))
       (take (nat (get_bin (int (length spec)) high_freq (int (length spec)))) spec) \<and>
   (\<forall>j. j < length (crop spec low_freq high_freq) \<longrightarrow>
      crop spec low_freq high_freq ! j = spec ! (nat (get_bin (int (length spec)) low_freq 0) + j)) \<and>
   pre_log fsize nframes frames (sample_rate a) (kw ''low_freq'') (kw ''high_freq'') =
     drop (nat (get_bin (int (fsize div 2 + 1)) (kw ''low_freq'') 0))
       (take (nat (get_bin (int (fsize div 2 + 1)) (kw ''high_freq'') (int (fsize div 2 + 1))))
          (scaled fsize nframes frames (sample_rate a))) \<and>
   get_audio_features a ''spec'' kw =
     Inr (Spec (np_transpose nframes (map (map np_log)
       (drop (nat (get_bin (int (fsize div 2 + 1)) (kw ''low_freq'') 0))
          (take (nat (get_bin (int (fsize div 2 + 1)) (kw ''high_freq'') (int (fsize div 2 + 1))))
             (scaled fsize nframes frames (sample_rate a))))))) \<and>
   (case get_audio_features a ''spec'' kw of
      Inr (Spec m) \<Rightarrow>
        length m = nframes \<and>
        (\<forall>t < nframes.
           length (m ! t) =
             nat (get_bin (int (fsize div 2 + 1)) (kw ''high_freq'') (int (fsize div 2 + 1)))
               - nat (get_bin (int (fsize div 2 + 1)) (kw ''low_freq'') 0) \<and>
           (\<forall>j < nat (get_bin (int (fsize div 2 + 1)) (kw ''high_freq'') (int (fsize div 2 + 1)))
                   - nat (get_bin (int (fsize div 2 + 1)) (kw ''low_freq'') 0).
              m ! t ! j =
                np_log (scaled fsize nframes frames (sample_rate a)
                          ! (nat (get_bin (int (fsize div 2 + 1)) (kw ''low_freq'') 0) + j) ! t)))
    | _ \<Rightarrow> False)"
proof -
  let ?nb = "int (fsize div 2 + 1)"
  let ?lo = "nat (get_bin ?nb (kw ''low_freq'') 0)"
  let ?hi = "nat (get_bin ?nb (kw ''high_freq'') ?nb)"
  let ?S = "scaled fsize nframes frames (sample_rate a)"
  have a: "get_bin nb None alt = alt" "get_bin nb (Some 0) alt = alt"
    by (simp_all add: get_bin_unset truthy_def)
  have b: "f \<noteq> 0 \<longrightarrow> get_bin nb (Some f) alt = min (max (round (f / delta_freq)) 0) nb"
    by (simp add: get_bin_set)
  have c: "2 \<le> nb \<longrightarrow> get_bin nb (Some 100) alt = 2"
    by (simp add: get_bin_set delta_freq_50 round_def)
  have d: "40 \<le> nb \<longrightarrow> get_bin nb (Some 2000) alt = 40"
    by (simp add: get_bin_set delta_freq_50 round_def)
  have e: "\<forall>j. j < length (crop spec low_freq high_freq) \<longrightarrow>
      crop spec low_freq high_freq ! j = spec ! (nat (get_bin (int (length spec)) low_freq 0) + j)"
    unfolding crop_slice by (rule drop_take_nth)
  have p: "pre_log fsize nframes frames (sample_rate a) (kw ''low_freq'') (kw ''high_freq'') =
      drop ?lo (take ?hi ?S)"
    by (simp add: pre_log_def crop_slice)
  have g: "get_audio_features a ''spec'' kw =
      Inr (Spec (np_transpose nframes (map (map np_log) (drop ?lo (take ?hi ?S)))))"
    unfolding spec_of_framer[OF assms] p ..
  have "get_bin ?nb (kw ''high_freq'') ?nb \<le> ?nb"
    using get_bin_range[of ?nb ?nb "kw ''high_freq''"] by simp
  then have hi: "?hi \<le> fsize div 2 + 1" by linarith
  have m: "\<forall>t < nframes.
      length (np_transpose nframes (map (map np_log) (drop ?lo (take ?hi ?S))) ! t) = ?hi - ?lo \<and>
      (\<forall>j < ?hi - ?lo.
         np_transpose nframes (map (map np_log) (drop ?lo (take ?hi ?S))) ! t ! j
           = np_log (?S ! (?lo + j) ! t))"
  proof (intro allI impI conjI)
    fix t j
    assume t: "t < nframes" and j: "j < ?hi - ?lo"
    show "np_transpose nframes (map (map np_log) (drop ?lo (take ?hi ?S))) ! t ! j
           = np_log (?S ! (?lo + j) ! t)"
      by (rule cropped_log_entry(1)[OF t j hi])
  next
    fix t
    assume t: "t < nframes"
    show "length (np_transpose nframes (map (map np_log) (drop ?lo (take ?hi ?S))) ! t) = ?hi - ?lo"
      using hi by (simp add: np_transpose_def t)
  qed
  have k: "case get_audio_features a ''spec'' kw of
      Inr (Spec m) \<Rightarrow>
        length m = nframes \<and>
        (\<forall>t < nframes. length (m ! t) = ?hi - ?lo \<and>
           (\<forall>j < ?hi - ?lo. m ! t ! j = np_log (?S ! (?lo + j) ! t)))
    | _ \<Rightarrow> False"
    unfolding g using m by simp
  show ?thesis
    using delta_freq_50 a b c d crop_slice[of spec low_freq high_freq] e p g k
    by (intro conjI)
qed

theorem crop_bins_witness:
  "framer \<lparr>signal = [1, 2, 3, 4, 5, 6, 7], sample_rate = 200, sample_width = 3, channels = 1\<rparr>
     = Inr (4, 2, [[1 / 4, 3 / 4], [1 / 2, 1], [3 / 4, 5 / 4], [1, 3 / 2]]) \<and>
   (100::real) \<noteq> 0 \<and> (2::int) \<le> 161 \<and> (40::int) \<le> 161 \<and>
   get_bin 161 (Some 100) 0 = 2 \<and> get_bin 161 (Some 2000) 0 = 40 \<and>
   (0::nat) < length (crop [[Some 1], [Some 2], [Some 3]] (Some 50) (Some 100)) \<and>
   crop [[Some 1], [Some 2], [Some 3]] (Some 50) (Some 100) = [[Some 2]] \<and>
   get_audio_features \<lparr>signal = [1, 2, 3, 4, 5, 6, 7], sample_rate = 200, sample_width = 3, channels = 1\<rparr>
       ''spec'' [''low_freq'' \<mapsto> 50, ''high_freq'' \<mapsto> 100]
     = Inr (Spec (np_transpose 2 (map (map np_log)
         (drop 1 (take 2
            (scaled 4 2 [[1 / 4, 3 / 4], [1 / 2, 1], [3 / 4, 5 / 4], [1, 3 / 2]] 200))))))"
proof -
  let ?a = "\<lparr>signal = [1, 2, 3, 4, 5, 6, 7], sample_rate = 200, sample_width = 3, channels = 1 :: int\<rparr>"
  let ?kw = "[''low_freq'' \<mapsto> 50, ''high_freq'' \<mapsto> 100 :: real]"
  let ?F = "[[1 / 4, 3 / 4], [1 / 2, 1], [3 / 4, 5 / 4], [1, 3 / 2 :: real]]"
  have fr: "framer ?a = Inr (4, 2, ?F)"
    by code_simp
  have g1: "get_bin 3 (Some 50) 0 = 1"
    by (simp add: get_bin_set delta_freq_50 round_def)
  have g2: "get_bin 3 (Some 100) 3 = 2"
    by (simp add: get_bin_set delta_freq_50 round_def)
  note t = crop_bins[OF fr, of 161 0 100 "[[Some 1], [Some 2], [Some 3]]" "Some 50" "Some 100" ?kw]
  have c: "crop [[Some 1], [Some 2], [Some 3]] (Some 50) (Some 100) = [[Some 2]]"
    using t unfolding delta_freq_50 by (simp add: g1 g2)
  have b: "get_bin 161 (Some 100) 0 = 2 \<and> get_bin 161 (Some 2000) 0 = 40"
    using t unfolding delta_freq_50 by simp
  have k: "?kw ''low_freq'' = Some 50" "?kw ''high_freq'' = Some 100" by simp_all
  have "get_audio_features ?a ''spec'' ?kw =
      Inr (Spec (np_transpose 2 (map (map np_log)
        (drop (nat (get_bin (int (4 div 2 + 1)) (?kw ''low_freq'') 0))
           (take (nat (get_bin (int (4 div 2 + 1)) (?kw ''high_freq'') (int (4 div 2 + 1))))
              (scaled 4 2 ?F (sample_rate ?a)))))))"
    using t by blast
  then have g: "get_audio_features ?a ''spec'' ?kw =
      Inr (Spec (np_transpose 2 (map (map np_log) (drop 1 (take 2 (scaled 4 2 ?F 200))))))"
    unfolding k by (simp add: g1 g2)
  have n: "(100::real) \<noteq> 0 \<and> (2::int) \<le> 161 \<and> (40::int) \<le> 161" by simp
  have l: "(0::nat) < length (crop [[Some 1], [Some 2], [Some 3]] (Some 50) (Some 100))"
    unfolding c by simp
  show ?thesis using fr n b c l g by (intro conjI) blast+
qed

section \<open>An empty frequency band\<close>

lemma get_bin_mono:
  assumes "lf \<noteq> 0" and "hf \<noteq> 0" and "hf \<le> lf"
  shows "get_bin nb (Some hf) alt \<le> get_bin nb (Some lf) alt'"
proof -
  have "hf / delta_freq \<le> lf / delta_freq"
    using assms(3) by (simp add: delta_freq_50)
  then have "round (hf / delta_freq) \<le> round (lf / delta_freq)" by (rule round_mono)
  then show ?thesis using assms(1,2) by (simp add: get_bin_set)
qed

lemma drop_take_empty: "hi \<le> lo \<Longrightarrow> drop lo (take hi xs) = []"
  by simp

text \<open>
  Claim C10: with both cutoffs given and nonzero, when the low cutoff's bin is at least
  the high cutoff's bin (as it is when \<open>low_freq \<ge> high_freq\<close>), the crop leaves no
  frequency bin, and a call whose framing succeeded returns, without raising, a
  spectrogram whose every time frame has zero frequency bins.
\<close>

theorem empty_crop:
  assumes "framer a = Inr (fsize, nframes, frames)"
    and "kw ''low_freq'' = Some lf" and "lf \<noteq> 0"
    and "kw ''high_freq'' = Some hf" and "hf \<noteq> 0"
    and "hf \<le> lf \<or>
         get_bin (int (fsize div 2 + 1)) (Some hf) (int (fsize div 2 + 1))
           \<le> get_bin (int (fsize div 2 + 1)) (Some lf) 0"
  shows "get_bin (int (fsize div 2 + 1)) (Some hf) (int (fsize div 2 + 1))
           \<le> get_bin (int (fsize div 2 + 1)) (Some lf) 0 \<and>
         pre_log fsize nframes frames (sample_rate a) (kw ''low_freq'') (kw ''high_freq'') = [] \<and>
         get_audio_features a ''spec'' kw = Inr (Spec (replicate nframes []))"
proof -
  let ?nb = "int (fsize div 2 + 1)"
  have b: "get_bin ?nb (Some hf) ?nb \<le> get_bin ?nb (Some lf) 0"
    using assms(6) get_bin_mono[OF assms(3,5)] by blast
  have "nat (get_bin ?nb (Some hf) ?nb) \<le> nat (get_bin ?nb (Some lf) 0)"
    using b by (rule nat_mono)
  then have "crop (scaled fsize nframes frames (sample_rate a)) (Some lf) (Some hf) = []"
    unfolding crop_slice length_scaled by (rule drop_take_empty)
  then have p: "pre_log fsize nframes frames (sample_rate a) (kw ''low_freq'') (kw ''high_freq'') = []"
    by (simp add: pre_log_def assms(2,4))
  have "get_audio_features a ''spec'' kw = Inr (Spec (replicate nframes []))"
    unfolding spec_of_framer[OF assms(1)] p
    by (simp add: np_transpose_def map_replicate_const)
  then show ?thesis using b p by simp
qed

theorem empty_crop_witness:
  "framer \<lparr>signal = [1, 2, 3, 4, 5, 6, 7], sample_rate = 200, sample_width = 3, channels = 1\<rparr>
     = Inr (4, 2, [[1 / 4, 3 / 4], [1 / 2, 1], [3 / 4, 5 / 4], [1, 3 / 2]]) \<and>
   [''low_freq'' \<mapsto> 150, ''high_freq'' \<mapsto> 50] ''low_freq'' = Some (150 :: real) \<and> (150 :: real) \<noteq> 0 \<and>
   [''low_freq'' \<mapsto> 150, ''high_freq'' \<mapsto> 50] ''high_freq'' = Some (50 :: real) \<and> (50 :: real) \<noteq> 0 \<and>
   (50 :: real) \<le> 150 \<and>
   get_audio_features \<lparr>signal = [1, 2, 3, 4, 5, 6, 7], sample_rate = 200, sample_width = 3, channels = 1\<rparr>
       ''spec'' [''low_freq'' \<mapsto> 150, ''high_freq'' \<mapsto> 50]
     = Inr (Spec [[], []])"
proof -
  let ?a = "\<lparr>signal = [1, 2, 3, 4, 5, 6, 7], sample_rate = 200, sample_width = 3, channels = 1 :: int\<rparr>"
  let ?kw = "[''low_freq'' \<mapsto> 150, ''high_freq'' \<mapsto> 50 :: real]"
  have fr: "framer ?a = Inr (4, 2, [[1 / 4, 3 / 4], [1 / 2, 1], [3 / 4, 5 / 4], [1, 3 / 2]])"
    by code_simp
  have lo: "?kw ''low_freq'' = Some 150" by simp
  have hi: "?kw ''high_freq'' = Some 50" by simp
  have r: "replicate 2 [] = [[], [] :: npfloat list]" by (simp add: numeral_2_eq_2)
  have e: "get_audio_features ?a ''spec'' ?kw = Inr (Spec (replicate 2 []))"
    by (rule conjunct2[OF conjunct2[OF empty_crop[OF fr lo _ hi _ disjI1]]]) simp_all
  have c: "(150 :: real) \<noteq> 0 \<and> (50 :: real) \<noteq> 0 \<and> (50 :: real) \<le> 150" by simp
  show ?thesis
    using fr lo hi e[unfolded r] c by (intro conjI) blast+
qed

section \<open>The normalized power spectrum\<close>

lemma length_hanning [simp]: "length (hanning M) = M"
  by (simp add: hanning_def)

lemma mul_window_entry:
  assumes "length frames = length w" and "k < length w" and "i < length (frames ! k)"
  shows "mul_window frames w ! k ! i = frames ! k ! i * w ! k"
  using assms by (simp add: mul_window_def)

lemma rfft_entry:
  assumes "j < n div 2 + 1" and "i < m"
  shows "rfft n m x ! j ! i =
     (\<Sum>k<n. complex_of_real (x ! k ! i) * cis (- (2 * pi * real j * real k / real n)))"
proof -
  have "rfft n m x ! j = map (\<lambda>i. \<Sum>k<n. complex_of_real (x ! k ! i) *
                               cis (- (2 * pi * real j * real k / real n))) [0..<m]"
    unfolding rfft_def using assms(1) by (simp only: nth_map length_upt diff_zero nth_upt add_0)
  then show ?thesis using assms(2) by simp
qed

lemma norm_of_entry:
  assumes "length frames = fsize" and "\<forall>row \<in> set frames. length row = nframes"
    and "j < fsize div 2 + 1" and "i < nframes"
  shows "norm_of fsize nframes frames ! j ! i =
     Some ((cmod (\<Sum>k<fsize. complex_of_real (frames ! k ! i * hanning fsize ! k) *
                    cis (- (2 * pi * real j * real k / real fsize))))\<^sup>2)"
proof -
  have w: "mul_window frames (hanning fsize) ! k ! i = frames ! k ! i * hanning fsize ! k"
    if "k < fsize" for k
  proof -
    have "frames ! k \<in> set frames" using that assms(1) by simp
    then have "i < length (frames ! k)" using assms(2,4) by simp
    then show ?thesis using that assms(1) by (simp add: mul_window_entry)
  qed
  have "rfft fsize nframes (mul_window frames (hanning fsize)) ! j
          \<in> set (rfft fsize nframes (mul_window frames (hanning fsize)))"
    using assms(3) by simp
  then have len: "length (rfft fsize nframes (mul_window frames (hanning fsize)) ! j) = nframes"
    by (rule rfft_rows_length)
  have "norm_of fsize nframes frames ! j ! i =
      Some ((cmod (rfft fsize nframes (mul_window frames (hanning fsize)) ! j ! i))\<^sup>2)"
    using assms(3,4) len by (simp add: norm_of_def absolute_sq_def)
  also have "rfft fsize nframes (mul_window frames (hanning fsize)) ! j ! i =
      (\<Sum>k<fsize. complex_of_real (mul_window frames (hanning fsize) ! k ! i) *
                    cis (- (2 * pi * real j * real k / real fsize)))"
    by (rule rfft_entry[OF assms(3,4)])
  also have "\<dots> = (\<Sum>k<fsize. complex_of_real (frames ! k ! i * hanning fsize ! k) *
                    cis (- (2 * pi * real j * real k / real fsize)))"
    by (rule sum.cong) (simp_all add: w del: of_real_mult)
  finally show ?thesis .
qed

lemma scale_sum:
  "scale fsize rate = (\<Sum>k<fsize. (hanning fsize ! k)\<^sup>2) * real_of_int rate"
proof -
  have "sum_list (map (\<lambda>w. w\<^sup>2) (hanning fsize)) = (\<Sum>k<fsize. (hanning fsize ! k)\<^sup>2)"
    by (simp add: sum_list_sum_nth atLeast0LessThan)
  then show ?thesis by (simp add: scale_def)
qed

lemma scaled_entry:
  assumes "length frames = fsize" and "\<forall>row \<in> set frames. length row = nframes"
    and "j < fsize div 2 + 1" and "i < nframes"
  shows "scaled fsize nframes frames rate ! j ! i =
     np_divide
       (Some ((cmod (\<Sum>k<fsize. complex_of_real (frames ! k ! i * hanning fsize ! k) *
                       cis (- (2 * pi * real j * real k / real fsize))))\<^sup>2))
       (if j = 0 \<or> j = fsize div 2
        then (\<Sum>k<fsize. (hanning fsize ! k)\<^sup>2) * real_of_int rate
        else (\<Sum>k<fsize. (hanning fsize ! k)\<^sup>2) * real_of_int rate / 2)"
proof -
  have "norm_of fsize nframes frames ! j \<in> set (norm_of fsize nframes frames)"
    using assms(3) by simp
  then have "length (norm_of fsize nframes frames ! j) = nframes"
    by (rule norm_of_rows_length)
  then have "scaled fsize nframes frames rate ! j ! i =
      np_divide (norm_of fsize nframes frames ! j ! i)
        (if j = 0 \<or> j = fsize div 2 then scale fsize rate else scale fsize rate / 2)"
    using assms(4) by (simp add: scaled_row[OF assms(3)])
  then show ?thesis
    unfolding norm_of_entry[OF assms] scale_sum .
qed

lemma hanning_3: "hanning 3 = [0, 1, 0]"
proof -
  have "[0..<3] = [0, 1, 2]" by (simp add: upt_rec)
  moreover have "cos (2 * pi * 2 / 2) = 1" by simp
  moreover have "cos (2 * pi / 2) = - 1" by simp
  ultimately show ?thesis by (simp add: hanning_def)
qed

text \<open>
  Claim C1: for every frame matrix of shape \<open>(frame_size, num_frames)\<close> and every sample
  rate, entry \<open>(j, i)\<close> of the spectrogram before the logarithm (and before any crop) is
  the squared magnitude of coefficient \<open>j\<close> of the transform of the windowed frame
  \<open>i\<close>, divided by \<open>scale\<close> for the first and the last bin and by \<open>scale / 2\<close> for
  the bins between, with \<open>scale = (sum of window[k]^2) * sample_rate\<close>. A division by a
  zero scale gives the non-finite entry on both sides.
\<close>

theorem power_normalization:
  assumes "length frames = fsize" and "\<forall>row \<in> set frames. length row = nframes"
    and "j < fsize div 2 + 1" and "i < nframes"
  shows "pre_log fsize nframes frames rate None None = scaled fsize nframes frames rate \<and>
     scaled fsize nframes frames rate ! j ! i =
     np_divide
       (Some ((cmod (\<Sum>k<fsize. complex_of_real (frames ! k ! i * hanning fsize ! k) *
                       cis (- (2 * pi * real j * real k / real fsize))))\<^sup>2))
       (if j = 0 \<or> j = fsize div 2
        then (\<Sum>k<fsize. (hanning fsize ! k)\<^sup>2) * real_of_int rate
        else (\<Sum>k<fsize. (hanning fsize ! k)\<^sup>2) * real_of_int rate / 2)"
proof -
  have "pre_log fsize nframes frames rate None None = scaled fsize nframes frames rate"
    by (simp add: pre_log_def crop_def truthy_def)
  then show ?thesis using scaled_entry[OF assms] by (rule conjI)
qed

theorem power_normalization_witness:
  "length [[1], [2], [3 :: real]] = 3 \<and>
   list_all (\<lambda>row. length row = 1) [[1], [2], [3 :: real]] \<and>
   (0 :: nat) < 3 div 2 + 1 \<and> (0 :: nat) < 1 \<and>
   scaled 3 1 [[1], [2], [3]] 150 ! 0 ! 0 = Some (2 / 75)"
proof -
  have h1: "length [[1], [2], [3 :: real]] = 3" by simp
  have h2: "\<forall>row \<in> set [[1], [2], [3 :: real]]. length row = 1" by simp
  have h3: "(0 :: nat) < 3 div 2 + 1" by simp
  have h4: "(0 :: nat) < 1" by simp
  have s: "{..<3::nat} = {0, 1, 2}" by auto
  have "scaled 3 1 [[1], [2], [3]] 150 ! 0 ! 0 = Some (2 / 75)"
    using power_normalization[OF h1 h2 h3 h4, of 150]
    by (simp add: hanning_3 s np_divide_def)
  then show ?thesis by simp
qed

section \<open>Homogeneity of the power spectrum\<close>

lemma np_divide_scale:
  "np_divide (Some (c * p)) d = map_option (\<lambda>v. c * v) (np_divide (Some p) d)"
  by (simp add: np_divide_def)

lemma power_scale:
  fixes x w :: "nat \<Rightarrow> real" and e :: "nat \<Rightarrow> complex"
  shows "(cmod (\<Sum>k<n. complex_of_real (c * x k * w k) * e k))\<^sup>2 =
         c\<^sup>2 * (cmod (\<Sum>k<n. complex_of_real (x k * w k) * e k))\<^sup>2"
proof -
  have "(\<Sum>k<n. complex_of_real (c * x k * w k) * e k) =
        complex_of_real c * (\<Sum>k<n. complex_of_real (x k * w k) * e k)"
    by (simp add: sum_distrib_left mult.assoc)
  then show ?thesis
    by (simp add: norm_mult power_mult_distrib)
qed

lemma scaled_frame_shape:
  assumes "length frames = fsize" and "\<forall>row \<in> set frames. length row = nframes"
  shows "length (map (\<lambda>row. row[i := c * row ! i]) frames) = fsize"
    and "\<forall>row \<in> set (map (\<lambda>row. row[i := c * row ! i]) frames). length row = nframes"
  using assms by auto

lemma scaled_frame_entry:
  assumes "length frames = fsize" and "\<forall>row \<in> set frames. length row = nframes"
    and "k < fsize" and "i < nframes"
  shows "map (\<lambda>row. row[i := c * row ! i]) frames ! k ! i' =
           (if i' = i then c * frames ! k ! i else frames ! k ! i')"
proof -
  have "frames ! k \<in> set frames" using assms(1,3) by simp
  then have "i < length (frames ! k)" using assms(2,4) by simp
  then show ?thesis using assms(1,3) by (simp add: nth_list_update)
qed

lemma scaled_homogeneous:
  assumes "length frames = fsize" and "\<forall>row \<in> set frames. length row = nframes"
    and "j < fsize div 2 + 1" and "i < nframes"
  shows "scaled fsize nframes (map (\<lambda>row. row[i := c * row ! i]) frames) rate ! j ! i =
           map_option (\<lambda>v. c\<^sup>2 * v) (scaled fsize nframes frames rate ! j ! i)"
proof -
  let ?fr = "map (\<lambda>row. row[i := c * row ! i]) frames"
  have "(\<Sum>k<fsize. complex_of_real (?fr ! k ! i * hanning fsize ! k) *
                      cis (- (2 * pi * real j * real k / real fsize))) =
        (\<Sum>k<fsize. complex_of_real (c * (frames ! k ! i) * hanning fsize ! k) *
                      cis (- (2 * pi * real j * real k / real fsize)))"
    by (rule sum.cong) (simp_all add: scaled_frame_entry[OF assms(1,2) _ assms(4)] del: of_real_mult)
  then show ?thesis
    unfolding scaled_entry[OF scaled_frame_shape[OF assms(1,2)] assms(3,4)]
      scaled_entry[OF assms]
    by (simp only: power_scale np_divide_scale)
qed

lemma scaled_other_frames:
  assumes "length frames = fsize" and "\<forall>row \<in> set frames. length row = nframes"
    and "j < fsize div 2 + 1" and "i < nframes" and "i' < nframes" and "i' \<noteq> i"
  shows "scaled fsize nframes (map (\<lambda>row. row[i := c * row ! i]) frames) rate ! j ! i' =
           scaled fsize nframes frames rate ! j ! i'"
proof -
  let ?fr = "map (\<lambda>row. row[i := c * row ! i]) frames"
  have "(\<Sum>k<fsize. complex_of_real (?fr ! k ! i' * hanning fsize ! k) *
                      cis (- (2 * pi * real j * real k / real fsize))) =
        (\<Sum>k<fsize. complex_of_real (frames ! k ! i' * hanning fsize ! k) *
                      cis (- (2 * pi * real j * real k / real fsize)))"
    by (rule sum.cong)
      (simp_all add: scaled_frame_entry[OF assms(1,2) _ assms(4)] assms(6) del: of_real_mult)
  then show ?thesis
    unfolding scaled_entry[OF scaled_frame_shape[OF assms(1,2)] assms(3,5)]
      scaled_entry[OF assms(1,2,3,5)]
    by simp
qed

lemma drop_take_bound: "j < length (drop lo (take hi xs)) \<Longrightarrow> lo + j < length xs"
  by simp

text \<open>
  Claim C8: for every frame matrix, every constant \<open>c\<close> and every pair of cutoffs,
  multiplying the samples of frame \<open>i\<close> by \<open>c\<close> multiplies every value of column \<open>i\<close>
  of the cropped spectrogram before the logarithm by \<open>c^2\<close>, keeps the number of bins,
  and leaves the other columns as they were.
\<close>

theorem power_homogeneous:
  assumes "length frames = fsize" and "\<forall>row \<in> set frames. length row = nframes"
    and "i < nframes"
    and "j < length (pre_log fsize nframes frames rate low_freq high_freq)"
  shows "length (pre_log fsize nframes (map (\<lambda>row. row[i := c * row ! i]) frames) rate
                   low_freq high_freq)
           = length (pre_log fsize nframes frames rate low_freq high_freq) \<and>
         pre_log fsize nframes (map (\<lambda>row. row[i := c * row ! i]) frames) rate
             low_freq high_freq ! j ! i
           = map_option (\<lambda>v. c\<^sup>2 * v)
               (pre_log fsize nframes frames rate low_freq high_freq ! j ! i) \<and>
         (\<forall>i' < nframes. i' \<noteq> i \<longrightarrow>
            pre_log fsize nframes (map (\<lambda>row. row[i := c * row ! i]) frames) rate
                low_freq high_freq ! j ! i'
              = pre_log fsize nframes frames rate low_freq high_freq ! j ! i')"
proof -
  let ?fr = "map (\<lambda>row. row[i := c * row ! i]) frames"
  let ?S = "scaled fsize nframes frames rate"
  let ?S' = "scaled fsize nframes ?fr rate"
  let ?lo = "nat (get_bin (int (fsize div 2 + 1)) low_freq 0)"
  let ?hi = "nat (get_bin (int (fsize div 2 + 1)) high_freq (int (fsize div 2 + 1)))"
  have c: "pre_log fsize nframes frames rate low_freq high_freq = drop ?lo (take ?hi ?S)"
    and c': "pre_log fsize nframes ?fr rate low_freq high_freq = drop ?lo (take ?hi ?S')"
    by (simp_all add: pre_log_def crop_slice)
  have len: "length (drop ?lo (take ?hi ?S')) = length (drop ?lo (take ?hi ?S))"
    by simp
  have j: "j < length (drop ?lo (take ?hi ?S))" using assms(4) c by simp
  then have j': "j < length (drop ?lo (take ?hi ?S'))" using len by simp
  have "?lo + j < length ?S" using j by (rule drop_take_bound)
  then have b: "?lo + j < fsize div 2 + 1" by simp
  have n: "drop ?lo (take ?hi ?S) ! j = ?S ! (?lo + j)"
    using drop_take_nth j by blast
  have n': "drop ?lo (take ?hi ?S') ! j = ?S' ! (?lo + j)"
    using drop_take_nth j' by blast
  have one: "drop ?lo (take ?hi ?S') ! j ! i
      = map_option (\<lambda>v. c\<^sup>2 * v) (drop ?lo (take ?hi ?S) ! j ! i)"
    unfolding n n' by (rule scaled_homogeneous[OF assms(1,2) b assms(3)])
  have two: "\<forall>i' < nframes. i' \<noteq> i \<longrightarrow>
      drop ?lo (take ?hi ?S') ! j ! i' = drop ?lo (take ?hi ?S) ! j ! i'"
    unfolding n n' using scaled_other_frames[OF assms(1,2) b assms(3)] by blast
  show ?thesis unfolding c c' using len one two by (intro conjI)
qed

theorem power_homogeneous_witness:
  "length [[1], [2], [3 :: real]] = 3 \<and>
   list_all (\<lambda>row. length row = 1) [[1], [2], [3 :: real]] \<and>
   (0 :: nat) < 1 \<and>
   0 < length (pre_log 3 1 [[1], [2], [3]] 150 (Some 50) None) \<and>
   pre_log 3 1 [[1], [2], [3]] 150 (Some 50) None ! 0 ! 0 = Some (2 / 75) \<and>
   pre_log 3 1 [[5], [10], [15]] 150 (Some 50) None ! 0 ! 0 = Some (2 / 3)"
proof -
  have h1: "length [[1], [2], [3 :: real]] = 3" by simp
  have h2: "\<forall>row \<in> set [[1], [2], [3 :: real]]. length row = 1" by simp
  have h3: "(0 :: nat) < 1" by simp
  have g: "get_bin 2 (Some 50) 0 = 1" "get_bin 2 None 2 = 2"
    by (simp_all add: get_bin_set get_bin_unset truthy_def delta_freq_50 round_def)
  have l: "length (pre_log 3 1 [[1], [2], [3]] 150 (Some 50) None) = 1"
    by (simp add: pre_log_def crop_slice g)
  have h4: "0 < length (pre_log 3 1 [[1], [2], [3]] 150 (Some 50) None)"
    unfolding l by simp
  have s: "{..<3::nat} = {0, 1, 2}" by auto
  have "scaled 3 1 [[1], [2], [3]] 150 ! 1 ! 0 = Some (2 / 75)"
    using scaled_entry[OF h1 h2, of 1 0 150]
    by (simp add: hanning_3 s np_divide_def)
  then have v: "pre_log 3 1 [[1], [2], [3]] 150 (Some 50) None ! 0 ! 0 = Some (2 / 75)"
    by (simp add: pre_log_def crop_slice g)
  have "pre_log 3 1 [[5], [10], [15]] 150 (Some 50) None ! 0 ! 0 = Some (2 / 3)"
    using power_homogeneous[OF h1 h2 h3 h4, of 5] v by simp
  then show ?thesis using h4 v by simp
qed

end
